theory Spec2Isabelle
  imports Main "HOL-Library.Word" "HOL-Library.Sublist" "HOL-Library.AList"
begin

unbundle bit_operations_syntax

section \<open>Time and machine integers\<close>

text \<open>
  A Go \<^verbatim>\<open>time.Time\<close> is read as an instant on a timeline, counted in nanoseconds
  from 1 January 1970, 00:00 UTC (an unbounded integer); \<^verbatim>\<open>int\<close> and
  \<^verbatim>\<open>int64\<close> are 64-bit words compared as signed values (\<^verbatim>\<open>int\<close> has 64 bits on
  the platforms the service is built for), and \<^verbatim>\<open>time.Duration\<close> is an
  \<^verbatim>\<open>int64\<close> count of nanoseconds. Every \<^verbatim>\<open>time.Now()\<close> of the source is an
  explicit argument of the model, one argument for each place that reads the clock.
  The services are modelled one call at a time: a call runs from start to end on the
  state it is given; interleavings of concurrent calls are outside the model.
\<close>

type_synonym time = int
type_synonym int64 = "64 word"
type_synonym Duration = "64 word"

definition Second :: Duration where
  "Second = 1000000000"

definition Minute :: Duration where
  "Minute = 60 * Second"

definition time_Add :: "time \<Rightarrow> Duration \<Rightarrow> time" where
  "time_Add t d = t + sint d"

definition After :: "time \<Rightarrow> time \<Rightarrow> bool" where
  "After t u = (u < t)"

definition Before :: "time \<Rightarrow> time \<Rightarrow> bool" where
  "Before t u = (t < u)"

section \<open>Rate limiter (internal/service/video\_service.go)\<close>

record RateLimitConfig =
  Enabled_rl :: bool
  RequestsPerMinute :: int64
  BurstSize :: int64
  CleanupInterval_rl :: int64

record RateLimitEntry =
  IP_rl :: string
  Requests :: int64
  ResetAt :: time
  Blocked :: bool

type_synonym limits = "string \<rightharpoonup> RateLimitEntry"

text \<open>
  \<^verbatim>\<open>IsAllowed\<close>: the entry is a pointer into the map, so every field assignment
  is an update of the map at \<open>ip\<close>. The result is the new map and the returned flag.
\<close>

definition IsAllowed :: "RateLimitConfig \<Rightarrow> limits \<Rightarrow> string \<Rightarrow> time \<Rightarrow> limits \<times> bool" where
  "IsAllowed cfg lim ip now =
    (if \<not> Enabled_rl cfg then (lim, True)
     else case lim ip of
       None \<Rightarrow>
         (lim(ip \<mapsto> \<lparr>IP_rl = ip, Requests = 1, ResetAt = time_Add now Minute, Blocked = False\<rparr>),
          True)
     | Some entry \<Rightarrow>
         if After now (ResetAt entry) then
           (lim(ip \<mapsto> entry\<lparr>Requests := 1, ResetAt := time_Add now Minute, Blocked := False\<rparr>),
            True)
         else if Blocked entry then (lim, False)
         else
           let entry1 = entry\<lparr>Requests := Requests entry + 1\<rparr> in
           if RequestsPerMinute cfg <s Requests entry1 then
             (lim(ip \<mapsto> entry1\<lparr>Blocked := True\<rparr>), False)
           else (lim(ip \<mapsto> entry1), True))"

definition AllowBurst :: "RateLimitConfig \<Rightarrow> limits \<Rightarrow> string \<Rightarrow> time \<Rightarrow> limits \<times> bool" where
  "AllowBurst cfg lim ip now =
    (if \<not> Enabled_rl cfg then (lim, True)
     else case lim ip of
       None \<Rightarrow>
         (lim(ip \<mapsto> \<lparr>IP_rl = ip, Requests = 1, ResetAt = time_Add now Minute, Blocked = False\<rparr>),
          True)
     | Some entry \<Rightarrow>
         if After now (ResetAt entry) then
           (lim(ip \<mapsto> entry\<lparr>Requests := 1, ResetAt := time_Add now Minute, Blocked := False\<rparr>),
            True)
         else if Blocked entry then (lim, False)
         else
           let entry1 = entry\<lparr>Requests := Requests entry + 1\<rparr>;
               limit = RequestsPerMinute cfg + BurstSize cfg in
           if limit <s Requests entry1 then
             (lim(ip \<mapsto> entry1\<lparr>Blocked := True\<rparr>), False)
           else (lim(ip \<mapsto> entry1), True))"

text \<open>
  A request handled by the service: which of the two entry points is called, for which
  key, and what the clock reads. \<open>run_calls\<close> performs the requests in order on the one
  shared map and collects the answers.
\<close>

datatype call = Allow string time | Burst string time

fun do_call :: "RateLimitConfig \<Rightarrow> limits \<Rightarrow> call \<Rightarrow> limits \<times> bool" where
  "do_call cfg lim (Allow ip now) = IsAllowed cfg lim ip now"
| "do_call cfg lim (Burst ip now) = AllowBurst cfg lim ip now"

fun run_calls :: "RateLimitConfig \<Rightarrow> limits \<Rightarrow> call list \<Rightarrow> limits \<times> bool list" where
  "run_calls cfg lim [] = (lim, [])"
| "run_calls cfg lim (c # cs) =
     (case do_call cfg lim c of (lim1, b) \<Rightarrow>
        (case run_calls cfg lim1 cs of (lim2, bs) \<Rightarrow> (lim2, b # bs)))"

fun call_key :: "call \<Rightarrow> string" where
  "call_key (Allow ip now) = ip"
| "call_key (Burst ip now) = ip"

fun call_time :: "call \<Rightarrow> time" where
  "call_time (Allow ip now) = now"
| "call_time (Burst ip now) = now"

section \<open>Quota service (internal/service/quota\_service.go)\<close>

record QuotaConfig =
  Enabled :: bool
  DailyLimitMB :: int64
  ResetHour :: int64
  ResetMinute :: int64

record QuotaEntry =
  IP :: string
  UsedMB :: int64
  ResetTime :: time
  LastUpdate :: time

type_synonym quotas = "string \<rightharpoonup> QuotaEntry"

text \<open>
  The calendar functions of package \<^verbatim>\<open>time\<close> are read in a zone with a fixed offset
  from UTC (a \<open>Location\<close> is that offset, in nanoseconds east of UTC; zones that change
  their offset are outside the model). \<open>midnight loc now\<close> is the instant of 00:00:00
  on the local date of \<open>now\<close>.

  \<^verbatim>\<open>time.Date\<close> computes in 64-bit integers. It first carries the minutes into the
  hours and the hours into the days (\<^verbatim>\<open>norm\<close>: floor division, the sum
  \<^verbatim>\<open>hour + min / 60\<close> in \<^verbatim>\<open>int\<close>), then counts the seconds of the result modulo
  \<open>2 ^ 64\<close> and stores them as a signed 64-bit count of seconds from 1 January of
  year 1, which is \<open>unixToInternal\<close> seconds before the origin of the timeline.
  \<open>wrap64\<close> is the signed 64-bit value of an integer, \<open>wrap_Time\<close> the instant that
  such a count stands for, and \<open>Time_range\<close> holds of the instants that the count can
  hold, which \<open>wrap_Time\<close> leaves as they are. \<^verbatim>\<open>AddDate(0, 0, 1)\<close> calls
  \<^verbatim>\<open>time.Date\<close> with the day after and the same clock reading, one day later in a
  zone with a fixed offset.
\<close>

type_synonym Location = int

definition day_ns :: int where
  "day_ns = 86400 * 1000000000"

definition wrap64 :: "int \<Rightarrow> int" where
  "wrap64 x = (x + 2 ^ 63) mod 2 ^ 64 - 2 ^ 63"

definition unixToInternal :: int where
  "unixToInternal = 62135596800"

definition wrap_Time :: "time \<Rightarrow> time" where
  "wrap_Time t =
     (wrap64 (t div 1000000000 + unixToInternal) - unixToInternal) * 1000000000
       + t mod 1000000000"

definition Time_range :: "time \<Rightarrow> bool" where
  "Time_range t =
     (- (2 ^ 63) \<le> t div 1000000000 + unixToInternal
      \<and> t div 1000000000 + unixToInternal < 2 ^ 63)"

definition midnight :: "Location \<Rightarrow> time \<Rightarrow> time" where
  "midnight loc now = now - (now + loc) mod day_ns"

definition time_Date_of_day :: "Location \<Rightarrow> time \<Rightarrow> int \<Rightarrow> int \<Rightarrow> time" where
  "time_Date_of_day loc now hour minute =
     (let min1 = minute mod 60;
          hour1 = wrap64 (hour + minute div 60);
          hour2 = hour1 mod 24;
          days = hour1 div 24
      in wrap_Time (midnight loc now
                     + (days * 86400 + hour2 * 3600 + min1 * 60) * 1000000000))"

definition AddDate_one_day :: "time \<Rightarrow> time" where
  "AddDate_one_day t = wrap_Time (t + day_ns)"

definition calculateResetTime :: "QuotaConfig \<Rightarrow> Location \<Rightarrow> time \<Rightarrow> time" where
  "calculateResetTime cfg loc now =
     (let resetTime = time_Date_of_day loc now (sint (ResetHour cfg)) (sint (ResetMinute cfg))
      in if Before resetTime now then AddDate_one_day resetTime else resetTime)"

text \<open>
  \<^verbatim>\<open>CheckQuota\<close> reads the clock in up to four places: \<open>tc\<close> inside
  \<^verbatim>\<open>calculateResetTime\<close> and \<open>tu\<close> for \<^verbatim>\<open>LastUpdate\<close> when the entry is created,
  \<open>now\<close> for the comparison with the reset time, and \<open>tr\<close> inside
  \<^verbatim>\<open>calculateResetTime\<close> when the entry is reset. The result is the new map, the flag
  and the remaining amount. Log output of the quota service and of the rate limiter is
  not part of the model.
\<close>

definition CheckQuota ::
  "QuotaConfig \<Rightarrow> Location \<Rightarrow> quotas \<Rightarrow> string \<Rightarrow> int64 \<Rightarrow> time \<Rightarrow> time \<Rightarrow> time \<Rightarrow> time
    \<Rightarrow> quotas \<times> bool \<times> int64" where
  "CheckQuota cfg loc qs ip requestedSizeMB tc tu now tr =
    (if \<not> Enabled cfg then (qs, True, DailyLimitMB cfg)
     else
       let entry = (case qs ip of
                      None \<Rightarrow> \<lparr>IP = ip, UsedMB = 0, ResetTime = calculateResetTime cfg loc tc,
                                LastUpdate = tu\<rparr>
                    | Some e \<Rightarrow> e);
           entry1 = (if After now (ResetTime entry)
                     then entry\<lparr>UsedMB := 0, ResetTime := calculateResetTime cfg loc tr,
                                LastUpdate := now\<rparr>
                     else entry);
           qs1 = qs(ip \<mapsto> entry1);
           remaining = DailyLimitMB cfg - UsedMB entry1
       in if remaining \<le>s 0 then (qs1, False, 0)
          else if remaining <s requestedSizeMB then (qs1, False, remaining)
          else (qs1, True, remaining))"

text \<open>\<^verbatim>\<open>AddUsage\<close> always returns a nil error; the model returns the new map.\<close>

definition AddUsage ::
  "QuotaConfig \<Rightarrow> Location \<Rightarrow> quotas \<Rightarrow> string \<Rightarrow> int64 \<Rightarrow> time \<Rightarrow> time \<Rightarrow> quotas" where
  "AddUsage cfg loc qs ip sizeMB tc tu =
    (if \<not> Enabled cfg then qs
     else case qs ip of
       None \<Rightarrow> qs(ip \<mapsto> \<lparr>IP = ip, UsedMB = sizeMB, ResetTime = calculateResetTime cfg loc tc,
                          LastUpdate = tu\<rparr>)
     | Some entry \<Rightarrow> qs(ip \<mapsto> entry\<lparr>UsedMB := UsedMB entry + sizeMB, LastUpdate := tu\<rparr>))"

text \<open>
  \<^verbatim>\<open>GetQuotaInfo\<close> returns a map from field names to values; the model returns the
  fields. It takes the read lock only and assigns to nothing.
\<close>

datatype QuotaInfo =
  InfoDisabled
| InfoEnabled (used_mb: int64) (limit_mb: int64) (remaining_mb: int64) (reset_time: time)

definition GetQuotaInfo :: "QuotaConfig \<Rightarrow> Location \<Rightarrow> quotas \<Rightarrow> string \<Rightarrow> time \<Rightarrow> QuotaInfo" where
  "GetQuotaInfo cfg loc qs ip tc =
    (if \<not> Enabled cfg then InfoDisabled
     else case qs ip of
       None \<Rightarrow> InfoEnabled 0 (DailyLimitMB cfg) (DailyLimitMB cfg) (calculateResetTime cfg loc tc)
     | Some entry \<Rightarrow>
         let remaining = DailyLimitMB cfg - UsedMB entry;
             remaining1 = (if remaining <s 0 then 0 else remaining)
         in InfoEnabled (UsedMB entry) (DailyLimitMB cfg) remaining1 (ResetTime entry))"

text \<open>A commit: the key, the amount and the two clock readings of \<^verbatim>\<open>AddUsage\<close>.\<close>

type_synonym commit = "string \<times> int64 \<times> time \<times> time"

fun run_commits :: "QuotaConfig \<Rightarrow> Location \<Rightarrow> quotas \<Rightarrow> commit list \<Rightarrow> quotas" where
  "run_commits cfg loc qs [] = qs"
| "run_commits cfg loc qs ((ip, sizeMB, tc, tu) # cs) =
     run_commits cfg loc (AddUsage cfg loc qs ip sizeMB tc tu) cs"

fun committed :: "string \<Rightarrow> commit list \<Rightarrow> int64" where
  "committed ip [] = 0"
| "committed ip ((k, sizeMB, tc, tu) # cs) =
     (if k = ip then sizeMB + committed ip cs else committed ip cs)"

text \<open>The amount recorded for a key: nothing while it has no entry.\<close>

definition usedOf :: "quotas \<Rightarrow> string \<Rightarrow> int64" where
  "usedOf qs ip = (case qs ip of None \<Rightarrow> 0 | Some e \<Rightarrow> UsedMB e)"

section \<open>Storage manager (internal/storage/manager.go)\<close>

record StorageConfig =
  DownloadDir :: string
  MaxVideoSizeMB :: int64
  CleanupInterval :: int64
  FileTTLSeconds :: int64

record DownloadedFile =
  ID :: string
  Filename :: string
  FilePath :: string
  Size :: int64
  CreatedAt :: time
  ExpiresAt :: time
  URL :: string

text \<open>
  What \<^verbatim>\<open>os.Remove\<close> can answer, as far as the manager looks at it: no error, an
  error for which \<^verbatim>\<open>os.IsNotExist\<close> holds, or any other error. The file system is
  a state \<open>'w\<close> of the world and \<^verbatim>\<open>os.Remove\<close> an arbitrary function on it, an
  argument of the model.
\<close>

datatype remove_err = ErrNotExist | ErrOther

fun os_IsNotExist :: "remove_err \<Rightarrow> bool" where
  "os_IsNotExist ErrNotExist = True"
| "os_IsNotExist ErrOther = False"

text \<open>The lines the manager writes to the log, with their fields, and their levels.\<close>

datatype level = DebugLevel | InfoLevel | WarnLevel | ErrorLevel

datatype log_entry =
  FileSaved string string
| FailedToRemoveFile string string
| FileAlreadyDeleted string string
| FileRemovedByCleanup string string
| StorageCleanupCompleted int64 int64 int64

fun entry_level :: "log_entry \<Rightarrow> level" where
  "entry_level (FileSaved i n) = InfoLevel"
| "entry_level (FailedToRemoveFile i p) = ErrorLevel"
| "entry_level (FileAlreadyDeleted i p) = DebugLevel"
| "entry_level (FileRemovedByCleanup i p) = InfoLevel"
| "entry_level (StorageCleanupCompleted d e r) = InfoLevel"

definition write_log :: "bool \<Rightarrow> log_entry list \<Rightarrow> log_entry \<Rightarrow> log_entry list" where
  "write_log logger lg e = (if logger then lg @ [e] else lg)"

text \<open>
  The manager: the tracking map, the world its files live in, and the log. The Go map
  is an association list with one pair for each key, in the order in which
  \<^verbatim>\<open>range\<close> happens to visit it; \<open>logger\<close> says whether \<^verbatim>\<open>logger.Logger\<close> is
  set. The goroutine of \<^verbatim>\<open>cleanupRoutine\<close> and its stop channel are not part of the
  model; what the goroutine does to the manager is its call of
  \<^verbatim>\<open>cleanupExpiredFiles\<close> at each tick.
\<close>

record 'w Manager =
  files :: "(string \<times> DownloadedFile) list"
  world :: 'w
  log_out :: "log_entry list"

text \<open>
  \<^verbatim>\<open>SaveFile\<close> reads the clock twice (\<open>tc\<close> for \<^verbatim>\<open>CreatedAt\<close>, \<open>te\<close> for
  \<^verbatim>\<open>ExpiresAt\<close>), stores the record and then writes a log line without testing the
  logger; the model gives the stored state, which is what the source has reached when
  the log call is made.
\<close>

definition SaveFile ::
  "StorageConfig \<Rightarrow> bool \<Rightarrow> string \<Rightarrow> DownloadedFile \<Rightarrow> time \<Rightarrow> time \<Rightarrow> 'w Manager \<Rightarrow> 'w Manager" where
  "SaveFile cfg logger fid file tc te m =
    (let file1 = file\<lparr>ID := fid, CreatedAt := tc,
                      ExpiresAt := time_Add te (FileTTLSeconds cfg * Second)\<rparr>
     in m\<lparr>files := AList.update fid file1 (files m),
           log_out := write_log logger (log_out m) (FileSaved fid (Filename file1))\<rparr>)"

definition GetFile :: "'w Manager \<Rightarrow> string \<Rightarrow> DownloadedFile option" where
  "GetFile m fid = map_of (files m) fid"

text \<open>The local variables of \<^verbatim>\<open>cleanupExpiredFiles\<close>, and the body of its first loop.\<close>

record 'w sweep_state =
  sw_world :: 'w
  sw_log :: "log_entry list"
  deletedCount :: int64
  errorCount :: int64
  deletedIds :: "string list"

definition sweep_one ::
  "bool \<Rightarrow> ('w \<Rightarrow> string \<Rightarrow> 'w \<times> remove_err option) \<Rightarrow> time \<Rightarrow> 'w sweep_state
    \<Rightarrow> string \<times> DownloadedFile \<Rightarrow> 'w sweep_state" where
  "sweep_one logger os_Remove now s kv =
    (case kv of (fid, file) \<Rightarrow>
       if After now (ExpiresAt file) then
         (case os_Remove (sw_world s) (FilePath file) of (w1, err) \<Rightarrow>
            let s1 = (case err of
                        Some e \<Rightarrow>
                          if \<not> os_IsNotExist e then
                            s\<lparr>sw_world := w1,
                              sw_log := write_log logger (sw_log s)
                                          (FailedToRemoveFile fid (FilePath file)),
                              errorCount := errorCount s + 1\<rparr>
                          else
                            s\<lparr>sw_world := w1,
                              sw_log := write_log logger (sw_log s)
                                          (FileAlreadyDeleted fid (FilePath file))\<rparr>
                      | None \<Rightarrow>
                          s\<lparr>sw_world := w1,
                            sw_log := write_log logger (sw_log s)
                                        (FileRemovedByCleanup fid (FilePath file)),
                            deletedCount := deletedCount s + 1\<rparr>)
            in s1\<lparr>deletedIds := deletedIds s1 @ [fid]\<rparr>)
       else s)"

definition sweep_loop ::
  "bool \<Rightarrow> ('w \<Rightarrow> string \<Rightarrow> 'w \<times> remove_err option) \<Rightarrow> time \<Rightarrow> 'w Manager \<Rightarrow> 'w sweep_state" where
  "sweep_loop logger os_Remove now m =
     foldl (sweep_one logger os_Remove now)
       \<lparr>sw_world = world m, sw_log = log_out m, deletedCount = 0, errorCount = 0,
        deletedIds = []\<rparr>
       (files m)"

definition cleanupExpiredFiles ::
  "bool \<Rightarrow> ('w \<Rightarrow> string \<Rightarrow> 'w \<times> remove_err option) \<Rightarrow> time \<Rightarrow> 'w Manager \<Rightarrow> 'w Manager" where
  "cleanupExpiredFiles logger os_Remove now m =
    (let s = sweep_loop logger os_Remove now m;
         files1 = foldl (\<lambda>fs fid. AList.delete fid fs) (files m) (deletedIds s);
         log1 = (if logger \<and> (0 <s deletedCount s \<or> 0 <s errorCount s)
                 then sw_log s @ [StorageCleanupCompleted (deletedCount s) (errorCount s)
                                    (of_nat (length files1))]
                 else sw_log s)
     in m\<lparr>files := files1, world := sw_world s, log_out := log1\<rparr>)"

text \<open>
  What happens to the tracking map of a manager: a call of \<^verbatim>\<open>SaveFile\<close>, a call of
  \<^verbatim>\<open>ManualCleanup\<close>, and the call of \<^verbatim>\<open>cleanupExpiredFiles\<close> that
  \<^verbatim>\<open>cleanupRoutine\<close> makes when its ticker fires (\<open>Sweep_step\<close>), each with the
  clock readings of the call.
\<close>

datatype op =
  Save_op string DownloadedFile time time
| ManualCleanup_op time
| Sweep_step time

fun apply_op ::
  "StorageConfig \<Rightarrow> bool \<Rightarrow> ('w \<Rightarrow> string \<Rightarrow> 'w \<times> remove_err option) \<Rightarrow> 'w Manager \<Rightarrow> op
    \<Rightarrow> 'w Manager" where
  "apply_op cfg logger os_Remove m (Save_op fid file tc te) = SaveFile cfg logger fid file tc te m"
| "apply_op cfg logger os_Remove m (ManualCleanup_op now) =
     cleanupExpiredFiles logger os_Remove now m"
| "apply_op cfg logger os_Remove m (Sweep_step now) =
     cleanupExpiredFiles logger os_Remove now m"

definition run_ops ::
  "StorageConfig \<Rightarrow> bool \<Rightarrow> ('w \<Rightarrow> string \<Rightarrow> 'w \<times> remove_err option) \<Rightarrow> 'w Manager \<Rightarrow> op list
    \<Rightarrow> 'w Manager" where
  "run_ops cfg logger os_Remove m ops = foldl (apply_op cfg logger os_Remove) m ops"

text \<open>
  The operations that leave the record of \<open>fid\<close> alone up to the instant \<open>expiry\<close>: no
  second \<^verbatim>\<open>SaveFile\<close> of the same id, and no sweep with the clock after \<open>expiry\<close>.
\<close>

fun keeps :: "string \<Rightarrow> time \<Rightarrow> op \<Rightarrow> bool" where
  "keeps fid expiry (Save_op k file tc te) = (k \<noteq> fid)"
| "keeps fid expiry (ManualCleanup_op now) = (now \<le> expiry)"
| "keeps fid expiry (Sweep_step now) = (now \<le> expiry)"

text \<open>
  A small file system for examples: the paths that hold a file that can be removed, and
  the paths whose removal fails with an error other than absence.
\<close>

record fs =
  present :: "string list"
  stuck :: "string list"

definition fs_Remove :: "fs \<Rightarrow> string \<Rightarrow> fs \<times> remove_err option" where
  "fs_Remove w path =
    (if path \<in> set (stuck w) then (w, Some ErrOther)
     else if path \<in> set (present w) then (w\<lparr>present := removeAll path (present w)\<rparr>, None)
     else (w, Some ErrNotExist))"

section \<open>URL validator (pkg/validator/validator.go)\<close>

text \<open>
  \<^verbatim>\<open>strings.HasPrefix\<close>, \<^verbatim>\<open>strings.HasSuffix\<close> and \<^verbatim>\<open>strings.Contains\<close> on byte
  strings.
\<close>

definition HasPrefix :: "string \<Rightarrow> string \<Rightarrow> bool" where
  "HasPrefix s p = prefix p s"

definition HasSuffix :: "string \<Rightarrow> string \<Rightarrow> bool" where
  "HasSuffix s p = suffix p s"

fun Contains :: "string \<Rightarrow> string \<Rightarrow> bool" where
  "Contains [] substr = (substr = [])"
| "Contains (c # s) substr = (prefix substr (c # s) \<or> Contains s substr)"

text \<open>
  \<^verbatim>\<open>ValidateURL\<close>: the outcome of \<^verbatim>\<open>url.Parse\<close> is an argument (\<open>None\<close> for an
  error, otherwise the \<^verbatim>\<open>Host\<close> field), and so are the library functions
  \<^verbatim>\<open>strings.ToLower\<close> and \<^verbatim>\<open>strings.TrimSpace\<close>. \<open>match_domains\<close> is the loop over
  the allowed domains.
\<close>

fun match_domains :: "(string \<Rightarrow> string) \<Rightarrow> (string \<Rightarrow> string) \<Rightarrow> string \<Rightarrow> string list \<Rightarrow> bool" where
  "match_domains ToLower TrimSpace host [] = False"
| "match_domains ToLower TrimSpace host (domain # domains) =
     (let cleanDomain = ToLower (TrimSpace domain) in
      if length cleanDomain = 0 then match_domains ToLower TrimSpace host domains
      else if host = cleanDomain \<or> HasSuffix host (''.'' @ cleanDomain)
              \<or> Contains host cleanDomain then True
      else match_domains ToLower TrimSpace host domains)"

definition ValidateURL ::
  "(string \<Rightarrow> string) \<Rightarrow> (string \<Rightarrow> string) \<Rightarrow> string option \<Rightarrow> string list \<Rightarrow> bool" where
  "ValidateURL ToLower TrimSpace parsed allowedDomains =
    (case parsed of
       None \<Rightarrow> False
     | Some uHost \<Rightarrow>
         let host = (if HasPrefix uHost ''www.'' then drop 4 uHost else uHost);
             host1 = ToLower host
         in match_domains ToLower TrimSpace host1 allowedDomains)"

text \<open>The host that the loop compares with the domains.\<close>

definition normal_host :: "(string \<Rightarrow> string) \<Rightarrow> string \<Rightarrow> string" where
  "normal_host ToLower uHost =
     ToLower (if HasPrefix uHost ''www.'' then drop 4 uHost else uHost)"

text \<open>
  The two library functions on ASCII strings, where they agree with Go's: letters
  \<open>A\<close> to \<open>Z\<close> become lower case, and blanks, tabs, line feeds, vertical tabs, form feeds
  and carriage returns are cut from both ends.
\<close>

definition lower_char :: "char \<Rightarrow> char" where
  "lower_char c =
     (case map_of (zip ''ABCDEFGHIJKLMNOPQRSTUVWXYZ'' ''abcdefghijklmnopqrstuvwxyz'') c of
        None \<Rightarrow> c
      | Some l \<Rightarrow> l)"

definition ToLower_ascii :: "string \<Rightarrow> string" where
  "ToLower_ascii s = map lower_char s"

definition is_space :: "char \<Rightarrow> bool" where
  "is_space c = ((of_char c :: nat) \<in> {9, 10, 11, 12, 13, 32})"

definition TrimSpace_ascii :: "string \<Rightarrow> string" where
  "TrimSpace_ascii s = rev (dropWhile is_space (rev (dropWhile is_space s)))"

section \<open>Values for examples\<close>

definition cfg_ttl60 :: StorageConfig where
  "cfg_ttl60 = \<lparr>DownloadDir = ''/d'', MaxVideoSizeMB = 500, CleanupInterval = 3600,
                FileTTLSeconds = 60\<rparr>"

definition video_file :: "string \<Rightarrow> time \<Rightarrow> DownloadedFile" where
  "video_file path expires =
     \<lparr>ID = [], Filename = ''video.mp4'', FilePath = path, Size = 1000, CreatedAt = 0,
      ExpiresAt = expires, URL = ''https://youtube.com/watch?v=1''\<rparr>"

definition empty_manager :: "fs Manager" where
  "empty_manager = \<lparr>files = [], world = \<lparr>present = [''/d/a''], stuck = []\<rparr>, log_out = []\<rparr>"

text \<open>
  Four tracked files: \<open>a\<close>, \<open>b\<close> and \<open>c\<close> expire at 10, 20 and 30, \<open>d\<close> at 100; the
  file of \<open>b\<close> cannot be removed and the file of \<open>c\<close> is already gone.
\<close>

definition four_files :: "fs Manager" where
  "four_files =
     \<lparr>files = [(''a'', video_file ''/d/a'' 10), (''b'', video_file ''/d/b'' 20),
               (''c'', video_file ''/d/c'' 30), (''d'', video_file ''/d/d'' 100)],
      world = \<lparr>present = [''/d/a'', ''/d/b'', ''/d/d''], stuck = [''/d/b'']\<rparr>,
      log_out = []\<rparr>"

section \<open>The rate limiter: windows, the latched block, the burst threshold\<close>

lemma sint_Minute: "sint Minute = 60000000000"
  by (simp add: Minute_def Second_def)

lemma time_Add_Minute: "time_Add t Minute = t + 60000000000"
  by (simp add: time_Add_def sint_Minute)

lemma AllowBurst_as_IsAllowed:
  "AllowBurst cfg lim ip now =
   IsAllowed (cfg\<lparr>RequestsPerMinute := RequestsPerMinute cfg + BurstSize cfg\<rparr>) lim ip now"
  by (simp add: AllowBurst_def IsAllowed_def Let_def split: option.split)

lemma do_call_blocked:
  assumes "Enabled_rl cfg" and "lim ip = Some e" and "Blocked e"
    and "call_key c = ip" and "call_time c \<le> ResetAt e"
  shows "do_call cfg lim c = (lim, False)"
  using assms by (cases c) (auto simp: IsAllowed_def AllowBurst_def After_def)

lemma do_call_other_key:
  assumes "call_key c \<noteq> ip"
  shows "fst (do_call cfg lim c) ip = lim ip"
  using assms
  by (cases c) (auto simp: IsAllowed_def AllowBurst_def Let_def split: option.split)

lemma do_call_rollover:
  assumes "Enabled_rl cfg" and "lim ip = Some e" and "call_key c = ip"
    and "ResetAt e < call_time c"
  shows "do_call cfg lim c =
    (lim(ip \<mapsto> e\<lparr>Requests := 1, ResetAt := call_time c + 60000000000, Blocked := False\<rparr>),
     True)"
  using assms by (cases c) (auto simp: IsAllowed_def AllowBurst_def After_def time_Add_Minute)

lemma run_calls_blocked:
  assumes "Enabled_rl cfg" and "lim ip = Some e" and "Blocked e"
    and "\<forall>c\<in>set cs. call_key c = ip \<longrightarrow> call_time c \<le> ResetAt e"
  shows "fst (run_calls cfg lim cs) ip = Some e
     \<and> (\<forall>i<length cs. call_key (cs ! i) = ip \<longrightarrow> \<not> snd (run_calls cfg lim cs) ! i)"
  using assms
proof (induction cs arbitrary: lim)
  case Nil
  then show ?case by simp
next
  case (Cons c cs)
  obtain lim1 b where step: "do_call cfg lim c = (lim1, b)"
    by (cases "do_call cfg lim c")
  have keep: "lim1 ip = Some e"
  proof (cases "call_key c = ip")
    case True
    with Cons.prems have "do_call cfg lim c = (lim, False)"
      by (intro do_call_blocked) auto
    with step Cons.prems show ?thesis by simp
  next
    case False
    from do_call_other_key [OF False, of cfg lim] step Cons.prems show ?thesis by simp
  qed
  have deny: "\<not> b" if "call_key c = ip"
  proof -
    from that Cons.prems have "do_call cfg lim c = (lim, False)"
      by (intro do_call_blocked) auto
    with step show ?thesis by simp
  qed
  have ih: "fst (run_calls cfg lim1 cs) ip = Some e
     \<and> (\<forall>i<length cs. call_key (cs ! i) = ip \<longrightarrow> \<not> snd (run_calls cfg lim1 cs) ! i)"
    using Cons.IH [of lim1] Cons.prems(1) keep Cons.prems(3) Cons.prems(4) by simp
  obtain lim2 bs where rest: "run_calls cfg lim1 cs = (lim2, bs)"
    by (cases "run_calls cfg lim1 cs")
  have whole: "run_calls cfg lim (c # cs) = (lim2, b # bs)"
    using step rest by simp
  show ?case
  proof (intro conjI allI impI)
    show "fst (run_calls cfg lim (c # cs)) ip = Some e"
      using whole rest ih by simp
  next
    fix i
    assume "i < length (c # cs)" and "call_key ((c # cs) ! i) = ip"
    then show "\<not> snd (run_calls cfg lim (c # cs)) ! i"
      using whole rest ih deny by (cases i) auto
  qed
qed

text \<open>
  Claim C2. With the limiter enabled and five requests allowed in a window, a key without
  a record is allowed five times in a row while the clock is not after the end of the
  window opened by its first request (first request at \<open>t1\<close>, window end \<open>t1\<close> plus one
  minute); the sixth request in the window is refused; the first request with the clock
  after the end of the window is allowed again and leaves the record with one request
  counted, not blocked, and a window ending one minute after that request.
\<close>

theorem IsAllowed_window_of_five:
  assumes "Enabled_rl cfg" and "RequestsPerMinute cfg = 5" and "lim ip = None"
    and "t2 \<le> t1 + 60000000000" and "t3 \<le> t1 + 60000000000" and "t4 \<le> t1 + 60000000000"
    and "t5 \<le> t1 + 60000000000" and "t6 \<le> t1 + 60000000000" and "t1 + 60000000000 < t7"
  shows "snd (run_calls cfg lim [Allow ip t1, Allow ip t2, Allow ip t3, Allow ip t4,
            Allow ip t5, Allow ip t6, Allow ip t7])
         = [True, True, True, True, True, False, True]
     \<and> fst (run_calls cfg lim [Allow ip t1, Allow ip t2, Allow ip t3, Allow ip t4,
            Allow ip t5, Allow ip t6, Allow ip t7]) ip
         = Some \<lparr>IP_rl = ip, Requests = 1, ResetAt = t7 + 60000000000, Blocked = False\<rparr>"
  using assms
  by (simp add: IsAllowed_def time_Add_Minute After_def Let_def)

theorem IsAllowed_window_of_five_witness:
  "snd (run_calls \<lparr>Enabled_rl = True, RequestsPerMinute = 5, BurstSize = 2,
                   CleanupInterval_rl = 1800\<rparr> Map.empty
          [Allow ''203.0.113.7'' 0, Allow ''203.0.113.7'' 1000000000,
           Allow ''203.0.113.7'' 2000000000, Allow ''203.0.113.7'' 3000000000,
           Allow ''203.0.113.7'' 4000000000, Allow ''203.0.113.7'' 59000000000,
           Allow ''203.0.113.7'' 60000000001])
     = [True, True, True, True, True, False, True]"
proof -
  let ?cfg = "\<lparr>Enabled_rl = True, RequestsPerMinute = 5, BurstSize = 2,
               CleanupInterval_rl = 1800\<rparr>"
  have "Enabled_rl ?cfg" and "RequestsPerMinute ?cfg = 5"
    and "(Map.empty :: limits) ''203.0.113.7'' = None"
    by simp_all
  from IsAllowed_window_of_five [OF this, of 1000000000 0 2000000000 3000000000 4000000000
      59000000000 60000000001]
  show ?thesis by simp
qed

text \<open>
  Claim C5. The latched block: with the limiter enabled, if the record of a key is
  blocked, then through every sequence of calls of \<^verbatim>\<open>IsAllowed\<close> and
  \<^verbatim>\<open>AllowBurst\<close> (for this key and for others) in which the clock of the calls for
  this key is not after the record's reset instant, the record stays as it is, blocked
  and with the same reset instant, and every call for this key is refused; the first
  call for the key with the clock after the reset instant is allowed, sets the count to
  one (this call), clears the flag and sets the reset instant to one minute after the
  clock.
\<close>

theorem blocked_is_latched_until_rollover:
  assumes "Enabled_rl cfg" and "lim ip = Some e" and "Blocked e"
    and "\<forall>c\<in>set cs. call_key c = ip \<longrightarrow> call_time c \<le> ResetAt e"
    and "call_key c1 = ip" and "ResetAt e < call_time c1"
  shows "fst (run_calls cfg lim cs) ip = Some e
     \<and> (\<forall>i<length cs. call_key (cs ! i) = ip \<longrightarrow> \<not> snd (run_calls cfg lim cs) ! i)
     \<and> do_call cfg (fst (run_calls cfg lim cs)) c1 =
         ((fst (run_calls cfg lim cs))
            (ip \<mapsto> e\<lparr>Requests := 1, ResetAt := call_time c1 + 60000000000, Blocked := False\<rparr>),
          True)"
proof -
  have latched: "fst (run_calls cfg lim cs) ip = Some e
     \<and> (\<forall>i<length cs. call_key (cs ! i) = ip \<longrightarrow> \<not> snd (run_calls cfg lim cs) ! i)"
    using assms(1-4) by (rule run_calls_blocked)
  then have "fst (run_calls cfg lim cs) ip = Some e" by simp
  with assms(1) assms(5) assms(6)
  have "do_call cfg (fst (run_calls cfg lim cs)) c1 =
         ((fst (run_calls cfg lim cs))
            (ip \<mapsto> e\<lparr>Requests := 1, ResetAt := call_time c1 + 60000000000, Blocked := False\<rparr>),
          True)"
    by (intro do_call_rollover)
  with latched show ?thesis by simp
qed

theorem blocked_is_latched_until_rollover_witness:
  "fst (run_calls \<lparr>Enabled_rl = True, RequestsPerMinute = 5, BurstSize = 2,
                   CleanupInterval_rl = 1800\<rparr>
          [''203.0.113.7'' \<mapsto> \<lparr>IP_rl = ''203.0.113.7'', Requests = 6, ResetAt = 60000000000,
                                Blocked = True\<rparr>]
          [Allow ''203.0.113.7'' 1000000000, Burst ''203.0.113.7'' 60000000000,
           Allow ''198.51.100.1'' 70000000000]) ''203.0.113.7''
     = Some \<lparr>IP_rl = ''203.0.113.7'', Requests = 6, ResetAt = 60000000000, Blocked = True\<rparr>
   \<and> snd (do_call \<lparr>Enabled_rl = True, RequestsPerMinute = 5, BurstSize = 2,
                   CleanupInterval_rl = 1800\<rparr>
          (fst (run_calls \<lparr>Enabled_rl = True, RequestsPerMinute = 5, BurstSize = 2,
                   CleanupInterval_rl = 1800\<rparr>
          [''203.0.113.7'' \<mapsto> \<lparr>IP_rl = ''203.0.113.7'', Requests = 6, ResetAt = 60000000000,
                                Blocked = True\<rparr>]
          [Allow ''203.0.113.7'' 1000000000, Burst ''203.0.113.7'' 60000000000,
           Allow ''198.51.100.1'' 70000000000]))
          (Allow ''203.0.113.7'' 60000000001))"
proof -
  let ?cfg = "\<lparr>Enabled_rl = True, RequestsPerMinute = 5, BurstSize = 2,
               CleanupInterval_rl = 1800\<rparr>"
  let ?e = "\<lparr>IP_rl = ''203.0.113.7'', Requests = 6, ResetAt = 60000000000, Blocked = True\<rparr>"
  let ?lim = "[''203.0.113.7'' \<mapsto> ?e]"
  let ?cs = "[Allow ''203.0.113.7'' 1000000000, Burst ''203.0.113.7'' 60000000000,
              Allow ''198.51.100.1'' 70000000000]"
  have h1: "Enabled_rl ?cfg" by simp
  have h2: "?lim ''203.0.113.7'' = Some ?e" by simp
  have h3: "Blocked ?e" by simp
  have h4: "\<forall>c\<in>set ?cs. call_key c = ''203.0.113.7'' \<longrightarrow> call_time c \<le> ResetAt ?e" by simp
  have h5: "call_key (Allow ''203.0.113.7'' 60000000001) = ''203.0.113.7''" by simp
  have h6: "ResetAt ?e < call_time (Allow ''203.0.113.7'' 60000000001)" by simp
  from blocked_is_latched_until_rollover
    [of ?cfg ?lim "''203.0.113.7''" ?e ?cs "Allow ''203.0.113.7'' 60000000001", OF h1 h2 h3 h4 h5 h6]
  show ?thesis by simp
qed

text \<open>
  Claim C6. \<^verbatim>\<open>AllowBurst\<close> is \<^verbatim>\<open>IsAllowed\<close> with the threshold
  \<^verbatim>\<open>RequestsPerMinute + BurstSize\<close> in place of \<^verbatim>\<open>RequestsPerMinute\<close>, on every
  configuration, map, key and clock reading. With five requests in a window and a burst
  of two, a key without a record is allowed by seven calls in a row made while the clock
  is not after the end of the window opened by the first, and the eighth is refused.
\<close>

theorem AllowBurst_threshold:
  "AllowBurst cfg lim ip now =
     IsAllowed (cfg\<lparr>RequestsPerMinute := RequestsPerMinute cfg + BurstSize cfg\<rparr>) lim ip now
   \<and> (Enabled_rl cfg \<and> RequestsPerMinute cfg = 5 \<and> BurstSize cfg = 2 \<and> lim ip = None
        \<and> (\<forall>t\<in>set ts. t \<le> t1 + 60000000000) \<and> length ts = 7
      \<longrightarrow> snd (run_calls cfg lim (map (Burst ip) (t1 # ts)))
            = [True, True, True, True, True, True, True, False])"
proof (intro conjI impI)
  show "AllowBurst cfg lim ip now =
     IsAllowed (cfg\<lparr>RequestsPerMinute := RequestsPerMinute cfg + BurstSize cfg\<rparr>) lim ip now"
    by (rule AllowBurst_as_IsAllowed)
next
  assume h: "Enabled_rl cfg \<and> RequestsPerMinute cfg = 5 \<and> BurstSize cfg = 2 \<and> lim ip = None
        \<and> (\<forall>t\<in>set ts. t \<le> t1 + 60000000000) \<and> length ts = 7"
  then obtain t2 t3 t4 t5 t6 t7 t8 where ts: "ts = [t2, t3, t4, t5, t6, t7, t8]"
    by (auto simp: length_Suc_conv eval_nat_numeral)
  with h show "snd (run_calls cfg lim (map (Burst ip) (t1 # ts)))
            = [True, True, True, True, True, True, True, False]"
    by (simp add: AllowBurst_def time_Add_Minute After_def Let_def)
qed

theorem AllowBurst_threshold_witness:
  "snd (run_calls \<lparr>Enabled_rl = True, RequestsPerMinute = 5, BurstSize = 2,
                   CleanupInterval_rl = 1800\<rparr> Map.empty
          (map (Burst ''203.0.113.7'')
             [0, 1000000000, 2000000000, 3000000000, 4000000000, 5000000000, 6000000000,
              7000000000]))
     = [True, True, True, True, True, True, True, False]"
proof -
  let ?cfg = "\<lparr>Enabled_rl = True, RequestsPerMinute = 5, BurstSize = 2,
               CleanupInterval_rl = 1800\<rparr>"
  let ?ts = "[1000000000, 2000000000, 3000000000, 4000000000, 5000000000, 6000000000,
              7000000000] :: time list"
  have h: "Enabled_rl ?cfg \<and> RequestsPerMinute ?cfg = 5 \<and> BurstSize ?cfg = 2
        \<and> (Map.empty :: limits) ''203.0.113.7'' = None
        \<and> (\<forall>t\<in>set ?ts. t \<le> 0 + 60000000000) \<and> length ?ts = 7"
    by simp
  from AllowBurst_threshold [of ?cfg Map.empty "''203.0.113.7''" 0 ?ts 0, THEN conjunct2,
      rule_format, OF h]
  show ?thesis by simp
qed

section \<open>The quota service: headroom, the status read, the reset instant\<close>

lemmas calc_defs =
  calculateResetTime_def time_Date_of_day_def midnight_def day_ns_def Before_def
  AddDate_one_day_def wrap64_def wrap_Time_def unixToInternal_def Let_def

lemma usedOf_AddUsage:
  "Enabled cfg \<Longrightarrow>
   usedOf (AddUsage cfg loc qs k sizeMB tc tu) ip = usedOf qs ip + (if k = ip then sizeMB else 0)"
  by (auto simp: usedOf_def AddUsage_def split: option.split)

lemma usedOf_run_commits:
  "Enabled cfg \<Longrightarrow> usedOf (run_commits cfg loc qs cs) ip = usedOf qs ip + committed ip cs"
proof (induction cs arbitrary: qs)
  case Nil
  then show ?case by simp
next
  case (Cons c cs)
  obtain k sizeMB tc tu where c: "c = (k, sizeMB, tc, tu)" by (cases c)
  show ?case
    using Cons.IH [OF Cons.prems, of "AddUsage cfg loc qs k sizeMB tc tu"] Cons.prems
    by (simp add: c usedOf_AddUsage)
qed

lemma CheckQuota_in_window:
  assumes "Enabled cfg" and "\<forall>e. qs ip = Some e \<longrightarrow> \<not> After now (ResetTime e)"
  shows "snd (CheckQuota cfg loc qs ip r tc tu now tr) =
     (let remaining = DailyLimitMB cfg - usedOf qs ip in
      if remaining \<le>s 0 then (False, 0)
      else if remaining <s r then (False, remaining)
      else (True, remaining))"
  using assms
  by (cases "qs ip") (auto simp: CheckQuota_def usedOf_def Let_def)

lemma CheckQuota_after_commits:
  assumes "Enabled cfg"
    and "\<forall>e. qs ip = Some e \<longrightarrow> UsedMB e = 0"
    and "\<forall>e. run_commits cfg loc qs cs ip = Some e \<longrightarrow> \<not> After now (ResetTime e)"
  shows "snd (CheckQuota cfg loc (run_commits cfg loc qs cs) ip r tc tu now tr) =
     (let remaining = DailyLimitMB cfg - committed ip cs in
      if remaining \<le>s 0 then (False, 0)
      else if remaining <s r then (False, remaining)
      else (True, remaining))"
proof -
  have "usedOf qs ip = 0"
    using assms(2) by (simp add: usedOf_def split: option.split)
  then have "usedOf (run_commits cfg loc qs cs) ip = committed ip cs"
    using usedOf_run_commits [OF assms(1), of loc qs cs ip] by simp
  with CheckQuota_in_window
    [OF assms(1), of "run_commits cfg loc qs cs" ip now loc r tc tu tr] assms(3)
  show ?thesis by simp
qed

lemma CheckQuota_scenario:
  assumes "Enabled cfg" and "DailyLimitMB cfg = 100000000" and "qs ip = None"
    and "now_a \<le> calculateResetTime cfg loc c_tc" and "now_b \<le> calculateResetTime cfg loc c_tc"
  shows "(let qs1 = AddUsage cfg loc qs ip 60000000 c_tc c_tu;
              (qs2, res1) = CheckQuota cfg loc qs1 ip 50000000 tc_a tu_a now_a tr_a;
              (qs3, res2) = CheckQuota cfg loc qs2 ip 30000000 tc_b tu_b now_b tr_b
          in res1 = (False, 40000000) \<and> res2 = (True, 40000000))"
  using assms
  by (simp add: AddUsage_def CheckQuota_def After_def Let_def word_sle_eq word_sless_alt)

text \<open>
  Claim C1. With the quota enabled and the daily limit \<open>L\<close>, for a key whose window
  starts with nothing used (no entry, or an entry with usage 0): after any sequence of
  \<^verbatim>\<open>AddUsage\<close> calls, for this key and for others, whose amounts for this key sum to
  \<open>U\<close>, a \<^verbatim>\<open>CheckQuota\<close> for the key with the clock not after the entry's reset time
  computes \<open>remaining = L - U\<close> and answers \<open>(false, 0)\<close> if \<open>remaining \<le> 0\<close>,
  \<open>(false, remaining)\<close> if the request exceeds \<open>remaining\<close>, and \<open>(true, remaining)\<close>
  otherwise (sums, difference and comparisons are those of \<^verbatim>\<open>int64\<close>). With
  \<open>L = 100000000\<close> and one \<^verbatim>\<open>AddUsage\<close> of \<open>60000000\<close> for a key without an entry,
  a check for \<open>50000000\<close> answers \<open>(false, 40000000)\<close> and a following check for
  \<open>30000000\<close> answers \<open>(true, 40000000)\<close>, both made before the reset time.
\<close>

theorem CheckQuota_headroom:
  assumes "Enabled cfg"
  shows "((\<forall>e. qs ip = Some e \<longrightarrow> UsedMB e = 0)
          \<and> (\<forall>e. run_commits cfg loc qs cs ip = Some e \<longrightarrow> \<not> After now (ResetTime e))
        \<longrightarrow> snd (CheckQuota cfg loc (run_commits cfg loc qs cs) ip r tc tu now tr) =
             (let remaining = DailyLimitMB cfg - committed ip cs in
              if remaining \<le>s 0 then (False, 0)
              else if remaining <s r then (False, remaining)
              else (True, remaining)))
     \<and> (DailyLimitMB cfg = 100000000 \<and> qs ip = None
          \<and> now_a \<le> calculateResetTime cfg loc c_tc \<and> now_b \<le> calculateResetTime cfg loc c_tc
        \<longrightarrow> (let qs1 = AddUsage cfg loc qs ip 60000000 c_tc c_tu;
                  (qs2, res1) = CheckQuota cfg loc qs1 ip 50000000 tc_a tu_a now_a tr_a;
                  (qs3, res2) = CheckQuota cfg loc qs2 ip 30000000 tc_b tu_b now_b tr_b
              in res1 = (False, 40000000) \<and> res2 = (True, 40000000)))"
proof (intro conjI impI)
  assume "(\<forall>e. qs ip = Some e \<longrightarrow> UsedMB e = 0)
          \<and> (\<forall>e. run_commits cfg loc qs cs ip = Some e \<longrightarrow> \<not> After now (ResetTime e))"
  then show "snd (CheckQuota cfg loc (run_commits cfg loc qs cs) ip r tc tu now tr) =
             (let remaining = DailyLimitMB cfg - committed ip cs in
              if remaining \<le>s 0 then (False, 0)
              else if remaining <s r then (False, remaining)
              else (True, remaining))"
    using CheckQuota_after_commits [OF assms, of qs ip loc cs now r tc tu tr] by blast
next
  assume "DailyLimitMB cfg = 100000000 \<and> qs ip = None
          \<and> now_a \<le> calculateResetTime cfg loc c_tc \<and> now_b \<le> calculateResetTime cfg loc c_tc"
  then show "(let qs1 = AddUsage cfg loc qs ip 60000000 c_tc c_tu;
                  (qs2, res1) = CheckQuota cfg loc qs1 ip 50000000 tc_a tu_a now_a tr_a;
                  (qs3, res2) = CheckQuota cfg loc qs2 ip 30000000 tc_b tu_b now_b tr_b
              in res1 = (False, 40000000) \<and> res2 = (True, 40000000))"
    using CheckQuota_scenario [OF assms, of qs ip now_a loc c_tc now_b] by blast
qed

theorem CheckQuota_headroom_witness:
  "snd (CheckQuota \<lparr>Enabled = True, DailyLimitMB = 100000000, ResetHour = 0, ResetMinute = 0\<rparr> 0
          (run_commits \<lparr>Enabled = True, DailyLimitMB = 100000000, ResetHour = 0, ResetMinute = 0\<rparr>
             0 Map.empty
             [(''203.0.113.7'', 25000000, 1728003600000000000, 1728003600000000000),
              (''198.51.100.1'', 999, 1728003600000000000, 1728003600000000000),
              (''203.0.113.7'', 35000000, 1728003660000000000, 1728003660000000000)])
          ''203.0.113.7'' 50000000
          1728003720000000000 1728003720000000000 1728003720000000000 1728003720000000000)
   = (False, 40000000)
   \<and> (let qs1 = AddUsage \<lparr>Enabled = True, DailyLimitMB = 100000000, ResetHour = 0,
                     ResetMinute = 0\<rparr> 0 Map.empty ''203.0.113.7'' 60000000
                     1728003600000000000 1728003600000000000;
           (qs2, res1) = CheckQuota \<lparr>Enabled = True, DailyLimitMB = 100000000, ResetHour = 0,
                     ResetMinute = 0\<rparr> 0 qs1 ''203.0.113.7'' 50000000
                     1728003660000000000 1728003660000000000 1728003660000000000
                     1728003660000000000;
           (qs3, res2) = CheckQuota \<lparr>Enabled = True, DailyLimitMB = 100000000, ResetHour = 0,
                     ResetMinute = 0\<rparr> 0 qs2 ''203.0.113.7'' 30000000
                     1728003720000000000 1728003720000000000 1728003720000000000
                     1728003720000000000
       in res1 = (False, 40000000) \<and> res2 = (True, 40000000))"
proof -
  let ?cfg = "\<lparr>Enabled = True, DailyLimitMB = 100000000, ResetHour = 0, ResetMinute = 0\<rparr>"
  let ?cs = "[(''203.0.113.7'', 25000000, 1728003600000000000, 1728003600000000000),
              (''198.51.100.1'', 999, 1728003600000000000, 1728003600000000000),
              (''203.0.113.7'', 35000000, 1728003660000000000, 1728003660000000000)]
             :: commit list"
  have en: "Enabled ?cfg" by simp
  have r: "calculateResetTime ?cfg 0 1728003600000000000 = 1728086400000000000"
    by (simp add: calc_defs)
  have h: "(\<forall>e. (Map.empty :: quotas) ''203.0.113.7'' = Some e \<longrightarrow> UsedMB e = 0)
     \<and> (\<forall>e. run_commits ?cfg 0 Map.empty ?cs ''203.0.113.7'' = Some e
            \<longrightarrow> \<not> After 1728003720000000000 (ResetTime e))"
    by (simp add: AddUsage_def r After_def)
  have g: "DailyLimitMB ?cfg = 100000000 \<and> (Map.empty :: quotas) ''203.0.113.7'' = None
     \<and> 1728003660000000000 \<le> calculateResetTime ?cfg 0 1728003600000000000
     \<and> 1728003720000000000 \<le> calculateResetTime ?cfg 0 1728003600000000000"
    by (simp add: r)
  note inst = CheckQuota_headroom [where cfg = ?cfg and qs = Map.empty and loc = 0
      and ip = "''203.0.113.7''" and cs = ?cs and now = 1728003720000000000
      and now_a = 1728003660000000000 and now_b = 1728003720000000000
      and c_tc = 1728003600000000000, OF en]
  from inst [THEN conjunct1, rule_format, OF h,
      of 50000000 1728003720000000000 1728003720000000000 1728003720000000000]
  have first: "snd (CheckQuota ?cfg 0 (run_commits ?cfg 0 Map.empty ?cs) ''203.0.113.7'' 50000000
          1728003720000000000 1728003720000000000 1728003720000000000 1728003720000000000)
        = (False, 40000000)"
    by (simp add: word_sle_eq word_sless_alt)
  from inst [THEN conjunct2, rule_format, OF g]
  have second: "(let qs1 = AddUsage ?cfg 0 Map.empty ''203.0.113.7'' 60000000
                     1728003600000000000 1728003600000000000;
           (qs2, res1) = CheckQuota ?cfg 0 qs1 ''203.0.113.7'' 50000000
                     1728003660000000000 1728003660000000000 1728003660000000000
                     1728003660000000000;
           (qs3, res2) = CheckQuota ?cfg 0 qs2 ''203.0.113.7'' 30000000
                     1728003720000000000 1728003720000000000 1728003720000000000
                     1728003720000000000
       in res1 = (False, 40000000) \<and> res2 = (True, 40000000))" .
  from first second show ?thesis by (rule conjI)
qed

lemma midnight_le: "midnight loc now \<le> now"
  by (simp add: midnight_def day_ns_def)

lemma midnight_next: "now < midnight loc now + day_ns"
proof -
  have "(now + loc) mod day_ns < day_ns" by (simp add: day_ns_def)
  then show ?thesis by (simp add: midnight_def)
qed

lemma wrap64_id:
  assumes "- (2 ^ 63) \<le> x" and "x < 2 ^ 63"
  shows "wrap64 x = x"
proof -
  have "0 \<le> x + 2 ^ 63" and "x + 2 ^ 63 < 2 ^ 64" using assms by simp_all
  then have "(x + 2 ^ 63) mod 2 ^ 64 = x + 2 ^ 63" by (rule mod_pos_pos_trivial)
  then show ?thesis by (simp add: wrap64_def)
qed

lemma wrap_Time_id:
  assumes "Time_range t"
  shows "wrap_Time t = t"
proof -
  have "wrap64 (t div 1000000000 + unixToInternal) = t div 1000000000 + unixToInternal"
    using assms by (intro wrap64_id) (simp_all add: Time_range_def)
  then show ?thesis by (simp add: wrap_Time_def)
qed

lemma Time_range_between:
  assumes "Time_range a" and "Time_range b" and "a \<le> t" and "t \<le> b"
  shows "Time_range t"
proof -
  have "a div 1000000000 \<le> t div 1000000000" using assms(3) by (intro zdiv_mono1) simp_all
  moreover have "t div 1000000000 \<le> b div 1000000000"
    using assms(4) by (intro zdiv_mono1) simp_all
  ultimately show ?thesis using assms(1,2) by (simp add: Time_range_def)
qed

text \<open>
  For an hour from 0 to 23 and a minute from 0 to 59 nothing is carried, and for a clock
  that is not within two days of the ends of the range of \<^verbatim>\<open>time.Time\<close> nothing
  wraps: \<^verbatim>\<open>time.Date\<close> gives the local midnight plus the hours and the minutes.
\<close>

lemma time_Date_of_day_plain:
  assumes "0 \<le> h" and "h \<le> 23" and "0 \<le> mi" and "mi \<le> 59"
    and "Time_range (now - day_ns)" and "Time_range (now + 2 * day_ns)"
  shows "time_Date_of_day loc now h mi = midnight loc now + h * 3600000000000 + mi * 60000000000"
proof -
  let ?e = "midnight loc now + h * 3600000000000 + mi * 60000000000"
  have m60: "mi mod 60 = mi" and d60: "mi div 60 = 0" using assms(3,4) by simp_all
  have w: "wrap64 h = h" using assms(1,2) by (intro wrap64_id) simp_all
  have m24: "h mod 24 = h" and d24: "h div 24 = 0" using assms(1,2) by simp_all
  have p1: "0 \<le> h * 3600000000000" and p2: "0 \<le> mi * 60000000000"
    using assms(1,3) by simp_all
  have q1: "h * 3600000000000 \<le> 23 * 3600000000000" and q2: "mi * 60000000000 \<le> 59 * 60000000000"
    using assms(2,4) by simp_all
  have dpos: "day_ns = 86400000000000" by (simp add: day_ns_def)
  have lo: "now - day_ns \<le> ?e"
    using midnight_next [of now loc] p1 p2 by linarith
  have hi: "?e \<le> now + 2 * day_ns"
    using midnight_le [of loc now] q1 q2 dpos by linarith
  have "Time_range ?e"
    using assms(5,6) lo hi by (rule Time_range_between)
  then have "wrap_Time ?e = ?e" by (rule wrap_Time_id)
  then show ?thesis
    by (simp add: time_Date_of_day_def Let_def m60 d60 w m24 d24 algebra_simps)
qed

lemma calculateResetTime_plain:
  assumes "0 \<le> sint (ResetHour cfg)" and "sint (ResetHour cfg) \<le> 23"
    and "0 \<le> sint (ResetMinute cfg)" and "sint (ResetMinute cfg) \<le> 59"
    and "Time_range (now - day_ns)" and "Time_range (now + 2 * day_ns)"
  shows "calculateResetTime cfg loc now =
     (let next = midnight loc now + sint (ResetHour cfg) * 3600000000000
                   + sint (ResetMinute cfg) * 60000000000
      in if next < now then next + day_ns else next)"
proof -
  let ?e = "midnight loc now + sint (ResetHour cfg) * 3600000000000
              + sint (ResetMinute cfg) * 60000000000"
  have d: "time_Date_of_day loc now (sint (ResetHour cfg)) (sint (ResetMinute cfg)) = ?e"
    using assms by (rule time_Date_of_day_plain)
  have p1: "0 \<le> sint (ResetHour cfg) * 3600000000000"
    and p2: "0 \<le> sint (ResetMinute cfg) * 60000000000"
    using assms(1,3) by simp_all
  have dpos: "day_ns = 86400000000000" by (simp add: day_ns_def)
  have lo: "now - day_ns \<le> ?e + day_ns"
    using midnight_next [of now loc] p1 p2 dpos by linarith
  have hi: "?e < now \<Longrightarrow> ?e + day_ns \<le> now + 2 * day_ns"
    using dpos by linarith
  have "wrap_Time (?e + day_ns) = ?e + day_ns" if "?e < now"
    using Time_range_between [OF assms(5,6) lo hi [OF that]] by (rule wrap_Time_id)
  then show ?thesis
    by (simp add: calculateResetTime_def d Before_def AddDate_one_day_def Let_def)
qed

lemma next_day_after_now:
  assumes "0 \<le> h" and "0 \<le> mi"
  shows "now < midnight loc now + h * 3600000000000 + mi * 60000000000 + day_ns"
proof -
  have "0 \<le> h * 3600000000000" using assms(1) by simp
  moreover have "0 \<le> mi * 60000000000" using assms(2) by simp
  ultimately have "midnight loc now \<le> midnight loc now + h * 3600000000000 + mi * 60000000000"
    by linarith
  with midnight_next [of now loc] show ?thesis by linarith
qed

lemma calculateResetTime_ge:
  assumes "0 \<le> sint (ResetHour cfg)" and "sint (ResetHour cfg) \<le> 23"
    and "0 \<le> sint (ResetMinute cfg)" and "sint (ResetMinute cfg) \<le> 59"
    and "Time_range (now - day_ns)" and "Time_range (now + 2 * day_ns)"
  shows "now \<le> calculateResetTime cfg loc now"
  using next_day_after_now [OF assms(1) assms(3), of now loc]
  by (simp add: calculateResetTime_plain [OF assms] Let_def)

lemma GetQuotaInfo_snapshot:
  assumes "Enabled cfg" and "qs ip = Some e"
  shows "GetQuotaInfo cfg loc qs ip t =
     InfoEnabled (UsedMB e) (DailyLimitMB cfg)
       (if DailyLimitMB cfg - UsedMB e <s 0 then 0 else DailyLimitMB cfg - UsedMB e)
       (ResetTime e)"
  using assms by (simp add: GetQuotaInfo_def Let_def)

lemma CheckQuota_reset:
  assumes "Enabled cfg" and "qs ip = Some e" and "After now (ResetTime e)"
  shows "fst (CheckQuota cfg loc qs ip r tc tu now tr) ip =
     Some (e\<lparr>UsedMB := 0, ResetTime := calculateResetTime cfg loc tr, LastUpdate := now\<rparr>)"
  using assms by (simp add: CheckQuota_def Let_def)

text \<open>
  Claim C7, as the code has it. For a configured hour from 0 to 23 and minute from 0 to
  59 (and a clock not within two days of the ends of the range of \<^verbatim>\<open>time.Time\<close>),
  \<^verbatim>\<open>calculateResetTime\<close> takes the local midnight of today plus the configured hours
  and minutes and moves it one day on only if it is before the clock
  (\<^verbatim>\<open>resetTime.Before(now)\<close>), not if it equals the clock. The result is never before
  the clock, and it equals the clock exactly when the clock is at today's configured
  instant; at every other clock reading it is in the future.
\<close>

theorem calculateResetTime_not_before_now:
  assumes "0 \<le> sint (ResetHour cfg)" and "sint (ResetHour cfg) \<le> 23"
    and "0 \<le> sint (ResetMinute cfg)" and "sint (ResetMinute cfg) \<le> 59"
    and "Time_range (now - day_ns)" and "Time_range (now + 2 * day_ns)"
  shows "calculateResetTime cfg loc now =
     (let next = midnight loc now + sint (ResetHour cfg) * 3600000000000
                   + sint (ResetMinute cfg) * 60000000000
      in if next < now then next + day_ns else next)
    \<and> now \<le> calculateResetTime cfg loc now
    \<and> (calculateResetTime cfg loc now = now
        \<longleftrightarrow> now = midnight loc now + sint (ResetHour cfg) * 3600000000000
                    + sint (ResetMinute cfg) * 60000000000)"
proof (intro conjI)
  show "calculateResetTime cfg loc now =
     (let next = midnight loc now + sint (ResetHour cfg) * 3600000000000
                   + sint (ResetMinute cfg) * 60000000000
      in if next < now then next + day_ns else next)"
    using assms by (rule calculateResetTime_plain)
  show "now \<le> calculateResetTime cfg loc now"
    using assms by (rule calculateResetTime_ge)
  show "calculateResetTime cfg loc now = now
        \<longleftrightarrow> now = midnight loc now + sint (ResetHour cfg) * 3600000000000
                    + sint (ResetMinute cfg) * 60000000000"
    using next_day_after_now [OF assms(1) assms(3), of now loc]
    by (auto simp: calculateResetTime_plain [OF assms] Let_def)
qed

theorem calculateResetTime_not_before_now_witness:
  "(1727999940000000000 :: time)
     \<le> calculateResetTime \<lparr>Enabled = True, DailyLimitMB = 1000, ResetHour = 0, ResetMinute = 0\<rparr>
          0 1727999940000000000
   \<and> calculateResetTime \<lparr>Enabled = True, DailyLimitMB = 1000, ResetHour = 0, ResetMinute = 0\<rparr>
          0 1727999940000000000 = 1728000000000000000"
proof -
  let ?cfg = "\<lparr>Enabled = True, DailyLimitMB = 1000, ResetHour = 0, ResetMinute = 0\<rparr>"
  have h1: "0 \<le> sint (ResetHour ?cfg)" and h2: "sint (ResetHour ?cfg) \<le> 23"
    and h3: "0 \<le> sint (ResetMinute ?cfg)" and h4: "sint (ResetMinute ?cfg) \<le> 59"
    by simp_all
  have h5: "Time_range (1727999940000000000 - day_ns)"
    and h6: "Time_range (1727999940000000000 + 2 * day_ns)"
    by (simp_all add: Time_range_def day_ns_def unixToInternal_def)
  from calculateResetTime_not_before_now [OF h1 h2 h3 h4 h5 h6, of 0]
  show ?thesis
    by (simp add: midnight_def day_ns_def)
qed

text \<open>
  Claim C7 as stated fails when the clock is exactly at the configured instant: with the
  reset at 00:00 and the clock at a midnight, the result is that same midnight, which is
  not after the clock and was not moved to the next day. It also fails for an hour
  outside the documented range: with \<^verbatim>\<open>ResetHour\<close> \<open>= 2 ^ 54\<close> the seconds counted by
  \<^verbatim>\<open>time.Date\<close> wrap, and the result lies before the clock.
\<close>

theorem calculateResetTime_at_instant_counterexample:
  "calculateResetTime \<lparr>Enabled = True, DailyLimitMB = 1000, ResetHour = 0, ResetMinute = 0\<rparr>
      0 1728000000000000000 = 1728000000000000000
   \<and> \<not> (1728000000000000000
        < calculateResetTime \<lparr>Enabled = True, DailyLimitMB = 1000, ResetHour = 0,
            ResetMinute = 0\<rparr> 0 1728000000000000000)
   \<and> calculateResetTime \<lparr>Enabled = True, DailyLimitMB = 1000,
        ResetHour = 18014398509481984, ResetMinute = 0\<rparr> 0 1728000000000000000
      < 1728000000000000000"
  by (simp add: calc_defs)

text \<open>
  Claim C4, as the code has it. \<^verbatim>\<open>GetQuotaInfo\<close> resets nothing: for a key with an
  entry it reports the stored usage and the stored reset time whatever the clock reads,
  also when the reset time is past. The reset on access belongs to \<^verbatim>\<open>CheckQuota\<close>:
  after a \<^verbatim>\<open>CheckQuota\<close> for the key made with the clock after the reset time,
  \<^verbatim>\<open>GetQuotaInfo\<close> reports usage 0 and the reset time computed by that call, which
  is not before the clock reading it was computed from when the configured hour is from
  0 to 23 and the minute from 0 to 59 (and that reading is not within two days of the
  ends of the range of \<^verbatim>\<open>time.Time\<close>).
\<close>

theorem GetQuotaInfo_reads_stored_entry:
  assumes "Enabled cfg" and "qs ip = Some e"
  shows "GetQuotaInfo cfg loc qs ip t =
           InfoEnabled (UsedMB e) (DailyLimitMB cfg)
             (if DailyLimitMB cfg - UsedMB e <s 0 then 0 else DailyLimitMB cfg - UsedMB e)
             (ResetTime e)
     \<and> (After now (ResetTime e) \<longrightarrow>
          used_mb (GetQuotaInfo cfg loc (fst (CheckQuota cfg loc qs ip r tc tu now tr)) ip t) = 0
        \<and> reset_time (GetQuotaInfo cfg loc (fst (CheckQuota cfg loc qs ip r tc tu now tr)) ip t)
            = calculateResetTime cfg loc tr
        \<and> (0 \<le> sint (ResetHour cfg) \<and> sint (ResetHour cfg) \<le> 23
             \<and> 0 \<le> sint (ResetMinute cfg) \<and> sint (ResetMinute cfg) \<le> 59
             \<and> Time_range (tr - day_ns) \<and> Time_range (tr + 2 * day_ns)
             \<longrightarrow> tr \<le> calculateResetTime cfg loc tr))"
proof (intro conjI impI)
  show "GetQuotaInfo cfg loc qs ip t =
           InfoEnabled (UsedMB e) (DailyLimitMB cfg)
             (if DailyLimitMB cfg - UsedMB e <s 0 then 0 else DailyLimitMB cfg - UsedMB e)
             (ResetTime e)"
    using assms by (rule GetQuotaInfo_snapshot)
next
  assume a: "After now (ResetTime e)"
  let ?qs1 = "fst (CheckQuota cfg loc qs ip r tc tu now tr)"
  have "?qs1 ip =
     Some (e\<lparr>UsedMB := 0, ResetTime := calculateResetTime cfg loc tr, LastUpdate := now\<rparr>)"
    using assms a by (rule CheckQuota_reset)
  from GetQuotaInfo_snapshot [where qs = ?qs1 and ip = ip and loc = loc and t = t,
      OF assms(1) this]
  show "used_mb (GetQuotaInfo cfg loc ?qs1 ip t) = 0"
    and "reset_time (GetQuotaInfo cfg loc ?qs1 ip t) = calculateResetTime cfg loc tr"
    by simp_all
next
  assume "0 \<le> sint (ResetHour cfg) \<and> sint (ResetHour cfg) \<le> 23
             \<and> 0 \<le> sint (ResetMinute cfg) \<and> sint (ResetMinute cfg) \<le> 59
             \<and> Time_range (tr - day_ns) \<and> Time_range (tr + 2 * day_ns)"
  then show "tr \<le> calculateResetTime cfg loc tr"
    by (intro calculateResetTime_ge) simp_all
qed

theorem GetQuotaInfo_reads_stored_entry_witness:
  "GetQuotaInfo \<lparr>Enabled = True, DailyLimitMB = 1000, ResetHour = 0, ResetMinute = 0\<rparr> 0
     (fst (CheckQuota \<lparr>Enabled = True, DailyLimitMB = 1000, ResetHour = 0, ResetMinute = 0\<rparr> 0
        [''203.0.113.7'' \<mapsto> \<lparr>IP = ''203.0.113.7'', UsedMB = 50, ResetTime = 1728000000000000000,
                              LastUpdate = 1727999940000000000\<rparr>]
        ''203.0.113.7'' 0 1728000060000000000 1728000060000000000 1728000060000000000
        1728000060000000000))
     ''203.0.113.7'' 1728000060000000000
   = InfoEnabled 0 1000 1000 1728086400000000000"
proof -
  let ?cfg = "\<lparr>Enabled = True, DailyLimitMB = 1000, ResetHour = 0, ResetMinute = 0\<rparr>"
  let ?e = "\<lparr>IP = ''203.0.113.7'', UsedMB = 50, ResetTime = 1728000000000000000,
             LastUpdate = 1727999940000000000\<rparr>"
  let ?qs = "[''203.0.113.7'' \<mapsto> ?e]"
  let ?qs1 = "fst (CheckQuota ?cfg 0 ?qs ''203.0.113.7'' 0 1728000060000000000
                 1728000060000000000 1728000060000000000 1728000060000000000)"
  have h1: "Enabled ?cfg" by simp
  have h2: "?qs ''203.0.113.7'' = Some ?e" by simp
  have h3: "After 1728000060000000000 (ResetTime ?e)" by (simp add: After_def)
  from GetQuotaInfo_reads_stored_entry [where cfg = ?cfg and qs = ?qs and e = ?e
      and ip = "''203.0.113.7''" and loc = 0 and t = 1728000060000000000
      and now = 1728000060000000000 and r = 0 and tc = 1728000060000000000
      and tu = 1728000060000000000 and tr = 1728000060000000000,
      OF h1 h2, THEN conjunct2, rule_format, OF h3]
  have "used_mb (GetQuotaInfo ?cfg 0 ?qs1 ''203.0.113.7'' 1728000060000000000) = 0" by simp
  then show ?thesis
    by (simp add: GetQuotaInfo_def CheckQuota_def After_def calc_defs
        word_sle_eq word_sless_alt split: if_splits)
qed

text \<open>
  Claim C4 as stated fails: with the reset at 00:00, an \<^verbatim>\<open>AddUsage\<close> of 50 at 23:59
  creates the entry with the coming midnight as its reset time, and a
  \<^verbatim>\<open>GetQuotaInfo\<close> at 00:01 of the next day still reports 50 used and that midnight,
  now past, as the reset time.
\<close>

theorem GetQuotaInfo_after_reset_instant_counterexample:
  "GetQuotaInfo \<lparr>Enabled = True, DailyLimitMB = 1000, ResetHour = 0, ResetMinute = 0\<rparr> 0
     (AddUsage \<lparr>Enabled = True, DailyLimitMB = 1000, ResetHour = 0, ResetMinute = 0\<rparr> 0
        Map.empty ''203.0.113.7'' 50 1727999940000000000 1727999940000000000)
     ''203.0.113.7'' 1728000060000000000
   = InfoEnabled 50 1000 950 1728000000000000000"
  by (simp add: GetQuotaInfo_def AddUsage_def calc_defs word_sless_alt)

section \<open>The storage manager: sweeps and the lifetime of a record\<close>

lemma sweep_one_deletedIds:
  "deletedIds (sweep_one logger rm now s (k, f)) =
     deletedIds s @ (if After now (ExpiresAt f) then [k] else [])"
  by (simp add: sweep_one_def Let_def split: prod.split option.split)

lemma foldl_sweep_one_deletedIds:
  "deletedIds (foldl (sweep_one logger rm now) s xs) =
     deletedIds s @ map fst (filter (\<lambda>(k, f). After now (ExpiresAt f)) xs)"
proof (induction xs arbitrary: s)
  case Nil
  then show ?case by simp
next
  case (Cons x xs)
  obtain k f where x: "x = (k, f)" by (cases x)
  show ?case
    by (simp add: x Cons.IH sweep_one_deletedIds)
qed

lemma sweep_loop_deletedIds:
  "deletedIds (sweep_loop logger rm now m) =
     map fst (filter (\<lambda>(k, f). After now (ExpiresAt f)) (files m))"
  by (simp add: sweep_loop_def foldl_sweep_one_deletedIds)

lemma foldl_delete:
  "foldl (\<lambda>fs k. AList.delete k fs) xs ks = filter (\<lambda>(k, v). k \<notin> set ks) xs"
proof (induction ks arbitrary: xs)
  case Nil
  then show ?case by simp
next
  case (Cons k ks)
  have "foldl (\<lambda>fs k. AList.delete k fs) xs (k # ks) =
        filter (\<lambda>(k', v). k' \<notin> set ks) (AList.delete k xs)"
    by (simp add: Cons.IH)
  also have "\<dots> = filter (\<lambda>(k', v). k' \<notin> set (k # ks)) xs"
    by (induction xs) auto
  finally show ?case .
qed

lemma filter_by_keys:
  assumes "distinct (map fst xs)"
  shows "filter (\<lambda>(k, v). k \<notin> set (map fst (filter P xs))) xs = filter (\<lambda>kv. \<not> P kv) xs"
proof (rule filter_cong)
  show "xs = xs" by simp
next
  fix kv assume mem: "kv \<in> set xs"
  obtain k v where kv: "kv = (k, v)" by (cases kv)
  have "k \<in> set (map fst (filter P xs)) \<longleftrightarrow> P (k, v)"
  proof
    assume "k \<in> set (map fst (filter P xs))"
    then obtain v' where "(k, v') \<in> set xs" and p: "P (k, v')" by auto
    with mem kv assms have "v' = v" by (meson eq_key_imp_eq_value)
    with p show "P (k, v)" by simp
  next
    assume "P (k, v)"
    with mem kv show "k \<in> set (map fst (filter P xs))" by force
  qed
  then show "(case kv of (k, v) \<Rightarrow> k \<notin> set (map fst (filter P xs))) = (\<not> P kv)"
    by (simp add: kv)
qed

lemma files_cleanupExpiredFiles:
  assumes "distinct (map fst (files m))"
  shows "files (cleanupExpiredFiles logger rm now m) =
     filter (\<lambda>(k, f). \<not> After now (ExpiresAt f)) (files m)"
proof -
  have "files (cleanupExpiredFiles logger rm now m) =
     filter (\<lambda>(k, v). k \<notin> set (map fst (filter (\<lambda>(k, f). After now (ExpiresAt f)) (files m))))
       (files m)"
    by (simp add: cleanupExpiredFiles_def Let_def sweep_loop_deletedIds foldl_delete)
  also have "\<dots> = filter (\<lambda>kv. \<not> (case kv of (k, f) \<Rightarrow> After now (ExpiresAt f))) (files m)"
    using assms by (rule filter_by_keys)
  also have "\<dots> = filter (\<lambda>(k, f). \<not> After now (ExpiresAt f)) (files m)"
    by (rule filter_cong) auto
  finally show ?thesis .
qed

lemma distinct_cleanupExpiredFiles:
  assumes "distinct (map fst (files m))"
  shows "distinct (map fst (files (cleanupExpiredFiles logger rm now m)))"
  using assms by (simp add: files_cleanupExpiredFiles distinct_map_filter)

lemma map_of_filter_distinct:
  assumes "distinct (map fst xs)"
  shows "map_of (filter (\<lambda>(k, v). P v) xs) k =
     (case map_of xs k of None \<Rightarrow> None | Some v \<Rightarrow> if P v then Some v else None)"
  using assms
proof (induction xs)
  case Nil
  then show ?case by simp
next
  case (Cons x xs)
  obtain k' v' where x: "x = (k', v')" by (cases x)
  from Cons.prems x have notin: "k' \<notin> fst ` set xs" and d: "distinct (map fst xs)" by auto
  have none: "map_of (filter (\<lambda>(k, v). P v) xs) k' = None"
    using notin by (auto simp: map_of_eq_None_iff)
  show ?case
    using Cons.IH [OF d] none by (auto simp: x)
qed

lemma GetFile_cleanupExpiredFiles:
  assumes "distinct (map fst (files m))"
  shows "GetFile (cleanupExpiredFiles logger rm now m) fid =
     (case GetFile m fid of None \<Rightarrow> None
      | Some f \<Rightarrow> if After now (ExpiresAt f) then None else Some f)"
  using map_of_filter_distinct [OF assms, of "\<lambda>f. \<not> After now (ExpiresAt f)" fid]
  by (simp add: GetFile_def files_cleanupExpiredFiles [OF assms] split: option.split)


lemma sweep_one_absent:
  assumes "After now (ExpiresAt file)" and "rm (sw_world s) (FilePath file) = (w1, Some ErrNotExist)"
  shows "sweep_one logger rm now s (fid, file) =
     s\<lparr>sw_world := w1,
       sw_log := write_log logger (sw_log s) (FileAlreadyDeleted fid (FilePath file)),
       deletedIds := deletedIds s @ [fid]\<rparr>"
  using assms by (simp add: sweep_one_def Let_def)

lemma sweep_one_failed:
  assumes "After now (ExpiresAt file)" and "rm (sw_world s) (FilePath file) = (w1, Some ErrOther)"
  shows "sweep_one logger rm now s (fid, file) =
     s\<lparr>sw_world := w1,
       sw_log := write_log logger (sw_log s) (FailedToRemoveFile fid (FilePath file)),
       errorCount := errorCount s + 1,
       deletedIds := deletedIds s @ [fid]\<rparr>"
  using assms by (simp add: sweep_one_def Let_def)

text \<open>
  Claim C8. For every manager whose tracking map has one pair for each key, every
  behaviour of \<^verbatim>\<open>os.Remove\<close>, every order of the map and with or without a logger,
  \<^verbatim>\<open>cleanupExpiredFiles\<close> leaves exactly the records that are not expired (the clock
  is not after \<^verbatim>\<open>ExpiresAt\<close>), each as it was: every expired record is gone, whatever
  the removal of its file answered, and no other record is removed. The loop tries every
  expired record, in the order of the map, and none of the answers stops it. In the body
  of the loop, an answer for which \<^verbatim>\<open>os.IsNotExist\<close> holds writes a line at debug
  level and counts no error; any other error writes a line at error level and counts an
  error; in both cases the id joins the ids to delete.
\<close>

theorem cleanupExpiredFiles_removes_exactly_expired:
  assumes "distinct (map fst (files m))"
  shows "files (cleanupExpiredFiles logger rm now m) =
           filter (\<lambda>(k, f). \<not> After now (ExpiresAt f)) (files m)
     \<and> (\<forall>fid. GetFile (cleanupExpiredFiles logger rm now m) fid =
           (case GetFile m fid of None \<Rightarrow> None
            | Some f \<Rightarrow> if After now (ExpiresAt f) then None else Some f))
     \<and> deletedIds (sweep_loop logger rm now m) =
           map fst (filter (\<lambda>(k, f). After now (ExpiresAt f)) (files m))
     \<and> (After now (ExpiresAt file) \<and> rm (sw_world s) (FilePath file) = (w1, Some ErrNotExist)
        \<longrightarrow> sweep_one logger rm now s (fid, file) =
             s\<lparr>sw_world := w1,
               sw_log := write_log logger (sw_log s) (FileAlreadyDeleted fid (FilePath file)),
               deletedIds := deletedIds s @ [fid]\<rparr>)
     \<and> (After now (ExpiresAt file) \<and> rm (sw_world s) (FilePath file) = (w1, Some ErrOther)
        \<longrightarrow> sweep_one logger rm now s (fid, file) =
             s\<lparr>sw_world := w1,
               sw_log := write_log logger (sw_log s) (FailedToRemoveFile fid (FilePath file)),
               errorCount := errorCount s + 1,
               deletedIds := deletedIds s @ [fid]\<rparr>)"
proof (intro conjI allI impI)
  show "files (cleanupExpiredFiles logger rm now m) =
           filter (\<lambda>(k, f). \<not> After now (ExpiresAt f)) (files m)"
    using assms by (rule files_cleanupExpiredFiles)
  show "GetFile (cleanupExpiredFiles logger rm now m) k =
           (case GetFile m k of None \<Rightarrow> None
            | Some f \<Rightarrow> if After now (ExpiresAt f) then None else Some f)" for k
    using assms by (rule GetFile_cleanupExpiredFiles)
  show "deletedIds (sweep_loop logger rm now m) =
           map fst (filter (\<lambda>(k, f). After now (ExpiresAt f)) (files m))"
    by (rule sweep_loop_deletedIds)
next
  assume "After now (ExpiresAt file) \<and> rm (sw_world s) (FilePath file) = (w1, Some ErrNotExist)"
  then show "sweep_one logger rm now s (fid, file) =
             s\<lparr>sw_world := w1,
               sw_log := write_log logger (sw_log s) (FileAlreadyDeleted fid (FilePath file)),
               deletedIds := deletedIds s @ [fid]\<rparr>"
    by (simp add: sweep_one_absent)
next
  assume "After now (ExpiresAt file) \<and> rm (sw_world s) (FilePath file) = (w1, Some ErrOther)"
  then show "sweep_one logger rm now s (fid, file) =
             s\<lparr>sw_world := w1,
               sw_log := write_log logger (sw_log s) (FailedToRemoveFile fid (FilePath file)),
               errorCount := errorCount s + 1,
               deletedIds := deletedIds s @ [fid]\<rparr>"
    by (simp add: sweep_one_failed)
qed

theorem cleanupExpiredFiles_removes_exactly_expired_witness:
  "cleanupExpiredFiles True fs_Remove 50 four_files =
     \<lparr>files = [(''d'', video_file ''/d/d'' 100)],
      world = \<lparr>present = [''/d/b'', ''/d/d''], stuck = [''/d/b'']\<rparr>,
      log_out = [FileRemovedByCleanup ''a'' ''/d/a'', FailedToRemoveFile ''b'' ''/d/b'',
                 FileAlreadyDeleted ''c'' ''/d/c'', StorageCleanupCompleted 1 1 1]\<rparr>"
proof -
  have d: "distinct (map fst (files four_files))"
    by (simp add: four_files_def)
  from cleanupExpiredFiles_removes_exactly_expired [where m = four_files and logger = True
      and rm = fs_Remove and now = 50, OF d, THEN conjunct1]
  have "files (cleanupExpiredFiles True fs_Remove 50 four_files) = [(''d'', video_file ''/d/d'' 100)]"
    by (simp add: four_files_def video_file_def After_def)
  then show ?thesis
    by (simp add: cleanupExpiredFiles_def sweep_loop_def sweep_one_def video_file_def
        four_files_def After_def write_log_def fs_Remove_def Let_def word_sless_alt)
qed

lemma sint_Second: "sint Second = 1000000000"
  by (simp add: Second_def)

lemma ttl_in_range:
  assumes "0 \<le> sint ttl" and "sint ttl * 1000000000 < 2 ^ 63"
  shows "time_Add te (ttl * Second) = te + sint ttl * 1000000000"
proof -
  have "sint (ttl * Second) = signed_take_bit 63 (sint ttl * sint Second)"
    by (simp add: sint_word_ariths)
  also have "\<dots> = sint ttl * 1000000000"
    using assms by (simp add: sint_Second signed_take_bit_int_eq_self)
  finally show ?thesis by (simp add: time_Add_def)
qed

lemma GetFile_SaveFile:
  "GetFile (SaveFile cfg logger fid file tc te m) fid =
     Some (file\<lparr>ID := fid, CreatedAt := tc,
                ExpiresAt := time_Add te (FileTTLSeconds cfg * Second)\<rparr>)"
  by (simp add: GetFile_def SaveFile_def Let_def update_conv')

lemma distinct_SaveFile:
  "distinct (map fst (files m)) \<Longrightarrow> distinct (map fst (files (SaveFile cfg logger fid file tc te m)))"
  by (simp add: SaveFile_def Let_def distinct_update)

lemma GetFile_SaveFile_other:
  "k \<noteq> fid \<Longrightarrow> GetFile (SaveFile cfg logger k file tc te m) fid = GetFile m fid"
  by (simp add: GetFile_def SaveFile_def Let_def update_conv')

lemma apply_op_keeps:
  assumes "distinct (map fst (files m))" and "GetFile m fid = Some f"
    and "keeps fid (ExpiresAt f) op"
  shows "distinct (map fst (files (apply_op cfg logger rm m op)))
     \<and> GetFile (apply_op cfg logger rm m op) fid = Some f"
proof (cases op)
  case (Save_op k f0 tc te)
  with assms show ?thesis by (simp add: distinct_SaveFile GetFile_SaveFile_other)
next
  case (ManualCleanup_op now)
  with assms show ?thesis
    by (simp add: distinct_cleanupExpiredFiles GetFile_cleanupExpiredFiles After_def)
next
  case (Sweep_step now)
  with assms show ?thesis
    by (simp add: distinct_cleanupExpiredFiles GetFile_cleanupExpiredFiles After_def)
qed

lemma run_ops_keeps:
  assumes "distinct (map fst (files m))" and "GetFile m fid = Some f"
    and "\<forall>op\<in>set ops. keeps fid (ExpiresAt f) op"
  shows "distinct (map fst (files (run_ops cfg logger rm m ops)))
     \<and> GetFile (run_ops cfg logger rm m ops) fid = Some f"
  using assms
proof (induction ops arbitrary: m)
  case Nil
  then show ?case by (simp add: run_ops_def)
next
  case (Cons op ops)
  have step: "distinct (map fst (files (apply_op cfg logger rm m op)))
     \<and> GetFile (apply_op cfg logger rm m op) fid = Some f"
    using Cons.prems by (intro apply_op_keeps) auto
  have "run_ops cfg logger rm m (op # ops) = run_ops cfg logger rm (apply_op cfg logger rm m op) ops"
    by (simp add: run_ops_def)
  with Cons.IH [of "apply_op cfg logger rm m op"] step Cons.prems(3)
  show ?case by simp
qed

text \<open>
  Claim C3, as the code has it. \<^verbatim>\<open>SaveFile\<close> stamps the record with
  \<^verbatim>\<open>ExpiresAt\<close> = its second clock reading \<open>te\<close> plus the TTL as a
  \<^verbatim>\<open>time.Duration\<close>. After it, through every sequence of operations that has no
  second \<^verbatim>\<open>SaveFile\<close> of the same id and no sweep with the clock after
  \<^verbatim>\<open>ExpiresAt\<close> (sweeps at the expiry instant itself included), \<^verbatim>\<open>GetFile\<close>
  returns the record; a sweep with the clock after \<^verbatim>\<open>ExpiresAt\<close> removes it, and
  \<^verbatim>\<open>GetFile\<close> returns nil. For a TTL of \<open>T\<close> seconds that is not negative and whose
  nanoseconds fit \<^verbatim>\<open>int64\<close>, \<^verbatim>\<open>ExpiresAt\<close> is \<open>te\<close> plus \<open>T\<close> seconds.
\<close>

theorem SaveFile_record_lives_until_expiry:
  assumes "distinct (map fst (files m))"
    and "\<forall>op\<in>set ops. keeps fid (time_Add te (FileTTLSeconds cfg * Second)) op"
  shows "GetFile (run_ops cfg logger rm (SaveFile cfg logger fid fl tc te m) ops) fid =
           Some (fl\<lparr>ID := fid, CreatedAt := tc,
                      ExpiresAt := time_Add te (FileTTLSeconds cfg * Second)\<rparr>)
     \<and> (time_Add te (FileTTLSeconds cfg * Second) < now \<longrightarrow>
          GetFile (cleanupExpiredFiles logger rm now
                     (run_ops cfg logger rm (SaveFile cfg logger fid fl tc te m) ops)) fid = None)
     \<and> (0 \<le> sint (FileTTLSeconds cfg) \<and> sint (FileTTLSeconds cfg) * 1000000000 < 2 ^ 63 \<longrightarrow>
          time_Add te (FileTTLSeconds cfg * Second) = te + sint (FileTTLSeconds cfg) * 1000000000)"
proof -
  let ?f = "fl\<lparr>ID := fid, CreatedAt := tc,
                  ExpiresAt := time_Add te (FileTTLSeconds cfg * Second)\<rparr>"
  let ?m1 = "SaveFile cfg logger fid fl tc te m"
  have d1: "distinct (map fst (files ?m1))" using assms(1) by (rule distinct_SaveFile)
  have g1: "GetFile ?m1 fid = Some ?f" by (rule GetFile_SaveFile)
  have k: "\<forall>op\<in>set ops. keeps fid (ExpiresAt ?f) op" using assms(2) by simp
  from run_ops_keeps [OF d1 g1 k, of cfg logger rm]
  have d2: "distinct (map fst (files (run_ops cfg logger rm ?m1 ops)))"
    and g2: "GetFile (run_ops cfg logger rm ?m1 ops) fid = Some ?f" by simp_all
  have swept: "time_Add te (FileTTLSeconds cfg * Second) < now \<longrightarrow>
      GetFile (cleanupExpiredFiles logger rm now (run_ops cfg logger rm ?m1 ops)) fid = None"
    by (simp add: GetFile_cleanupExpiredFiles [OF d2] g2 After_def)
  from g2 swept ttl_in_range [of "FileTTLSeconds cfg" te] show ?thesis by blast
qed

theorem SaveFile_record_lives_until_expiry_witness:
  "GetFile (run_ops cfg_ttl60 True fs_Remove
              (SaveFile cfg_ttl60 True ''a'' (video_file ''/d/a'' 0) 0 0 empty_manager)
              [ManualCleanup_op 59000000000,
               Save_op ''b'' (video_file ''/d/b'' 0) 1000000000 1000000000,
               Sweep_step 60000000000]) ''a''
     = Some ((video_file ''/d/a'' 60000000000)\<lparr>ID := ''a''\<rparr>)
   \<and> GetFile (cleanupExpiredFiles True fs_Remove 61000000000
        (run_ops cfg_ttl60 True fs_Remove
              (SaveFile cfg_ttl60 True ''a'' (video_file ''/d/a'' 0) 0 0 empty_manager)
              [ManualCleanup_op 59000000000,
               Save_op ''b'' (video_file ''/d/b'' 0) 1000000000 1000000000,
               Sweep_step 60000000000])) ''a''
     = None"
proof -
  let ?ops = "[ManualCleanup_op 59000000000,
               Save_op ''b'' (video_file ''/d/b'' 0) 1000000000 1000000000,
               Sweep_step 60000000000]"
  have d: "distinct (map fst (files empty_manager))"
    by (simp add: empty_manager_def)
  have k: "\<forall>op\<in>set ?ops. keeps ''a'' (time_Add 0 (FileTTLSeconds cfg_ttl60 * Second)) op"
    by (simp add: cfg_ttl60_def time_Add_def Second_def)
  have e: "time_Add 0 (FileTTLSeconds cfg_ttl60 * Second) = 60000000000"
    by (simp add: cfg_ttl60_def time_Add_def Second_def)
  from SaveFile_record_lives_until_expiry [where m = empty_manager and ops = ?ops
      and fid = "''a''" and te = 0 and tc = 0 and cfg = cfg_ttl60 and logger = True
      and rm = fs_Remove and fl = "video_file ''/d/a'' 0" and now = 61000000000, OF d k]
  show ?thesis
    by (simp add: e video_file_def)
qed

text \<open>
  Claim C3 as stated fails at the expiry instant: with a TTL of 60 seconds and a record
  saved at 0, a sweep at exactly 60 seconds leaves the record, and \<^verbatim>\<open>GetFile\<close> still
  returns it. It also fails for a TTL whose nanoseconds do not fit \<^verbatim>\<open>int64\<close>: with
  9223372037 seconds the product wraps to a negative duration, and a sweep one
  nanosecond after the save removes the record.
\<close>

theorem sweep_at_expiry_instant_counterexample:
  "GetFile (cleanupExpiredFiles True fs_Remove 60000000000
             (SaveFile cfg_ttl60 True ''a'' (video_file ''/d/a'' 0) 0 0 empty_manager)) ''a''
     = Some ((video_file ''/d/a'' 60000000000)\<lparr>ID := ''a''\<rparr>)
   \<and> GetFile (cleanupExpiredFiles True fs_Remove 1
             (SaveFile (cfg_ttl60\<lparr>FileTTLSeconds := 9223372037\<rparr>) True ''a''
                (video_file ''/d/a'' 0) 0 0 empty_manager)) ''a''
     = None"
  by (simp add: GetFile_def cleanupExpiredFiles_def sweep_loop_def sweep_one_def SaveFile_def
      cfg_ttl60_def video_file_def empty_manager_def time_Add_def Second_def After_def
      write_log_def fs_Remove_def Let_def)

section \<open>The URL validator: substring match\<close>

lemma Contains_sublist: "Contains s substr = sublist substr s"
  by (induction s) (auto simp: sublist_Cons_right)

lemma suffix_dot_sublist:
  assumes "suffix (''.'' @ c) host"
  shows "sublist c host"
proof -
  from assms obtain ps where "host = ps @ ''.'' @ c" by (auto simp: suffix_def)
  then have "host = (ps @ ''.'') @ c @ []" by simp
  then show ?thesis unfolding sublist_def by blast
qed

lemma match_step:
  "(host = c \<or> HasSuffix host (''.'' @ c) \<or> Contains host c) = sublist c host"
proof -
  have "host = c \<Longrightarrow> sublist c host" by simp
  moreover have "HasSuffix host (''.'' @ c) \<Longrightarrow> sublist c host"
    unfolding HasSuffix_def by (rule suffix_dot_sublist)
  ultimately show ?thesis by (auto simp: Contains_sublist)
qed

lemma match_domains_iff:
  "match_domains lo tr host ds = (\<exists>d\<in>set ds. lo (tr d) \<noteq> [] \<and> sublist (lo (tr d)) host)"
proof (induction ds)
  case Nil
  then show ?case by simp
next
  case (Cons d ds)
  show ?case
  proof (cases "lo (tr d) = []")
    case True
    then show ?thesis using Cons.IH by simp
  next
    case False
    show ?thesis
    proof (cases "sublist (lo (tr d)) host")
      case True
      with False match_step [of host "lo (tr d)"] show ?thesis
        by (simp add: Let_def)
    next
      case no: False
      with False match_step [of host "lo (tr d)"] Cons.IH show ?thesis
        by (simp add: Let_def)
    qed
  qed
qed

text \<open>
  Claim C10. \<^verbatim>\<open>ValidateURL\<close> returns true exactly when the URL parses and its host,
  with a leading \<open>www.\<close> cut off and then put in lower case, has the trimmed lower-case
  form of some allowed domain, not empty, as a contiguous part anywhere in it; in
  particular it returns true whenever the host contains such a domain, and neither
  equality nor a match at a dot-separated end is needed.
\<close>

theorem ValidateURL_substring_match:
  "ValidateURL lo tr parsed ds =
     (\<exists>uHost. parsed = Some uHost
        \<and> (\<exists>d\<in>set ds. lo (tr d) \<noteq> [] \<and> sublist (lo (tr d)) (normal_host lo uHost)))"
proof (cases parsed)
  case None
  then show ?thesis by (simp add: ValidateURL_def)
next
  case (Some uHost)
  then show ?thesis
    by (simp add: ValidateURL_def normal_host_def match_domains_iff Let_def)
qed

theorem ValidateURL_substring_match_witness:
  "ValidateURL ToLower_ascii TrimSpace_ascii (Some ''www.NotYouTube.com.attacker.net'')
     ['' '', '' YouTube.com '']"
proof -
  let ?d = "'' YouTube.com ''"
  have c: "ToLower_ascii (TrimSpace_ascii ?d) = ''youtube.com''"
    by (simp add: ToLower_ascii_def lower_char_def TrimSpace_ascii_def is_space_def)
  have n: "normal_host ToLower_ascii ''www.NotYouTube.com.attacker.net''
             = ''notyoutube.com.attacker.net''"
    by (simp add: normal_host_def HasPrefix_def ToLower_ascii_def lower_char_def)
  have "sublist ''youtube.com'' ''notyoutube.com.attacker.net''"
    by (simp add: sublist_Cons_right)
  with c n have "\<exists>d\<in>set ['' '', ?d]. ToLower_ascii (TrimSpace_ascii d) \<noteq> []
      \<and> sublist (ToLower_ascii (TrimSpace_ascii d))
           (normal_host ToLower_ascii ''www.NotYouTube.com.attacker.net'')"
    by simp
  then show ?thesis
    using ValidateURL_substring_match [of ToLower_ascii TrimSpace_ascii
        "Some ''www.NotYouTube.com.attacker.net''" "['' '', ?d]"]
    by blast
qed

end
